theory Spec2Isabelle
  imports Complex_Main "HOL-Library.Char_ord" "HOL-Library.List_Lexorder"
begin

section \<open>Data model of app.py\<close>

text \<open>
  The sampling frame is a spreadsheet read into a pandas DataFrame. A row carries the
  columns the script names. In the uploaded sheet a text cell holds a string (the empty
  string for an empty cell); in the DataFrame a cell of a text column is either a string
  or missing (\<open>NaN\<close>, here \<open>None\<close>). The frame keeps, for every row, its index label: the
  position of the row in the sheet (\<open>pd.read_excel\<close> gives a \<open>RangeIndex\<close>), which is
  what identifies a record once rows are filtered, drawn and concatenated.

  Strings are ordered as Python orders \<open>str\<close>: lexicographically by character.
\<close>

record 'c row =
  Region :: 'c
  GOVERNORATE :: 'c
  DELEGATION :: 'c
  Area :: 'c
  pop_block :: "int option"

type_synonym frame = "(nat \<times> string option row) list"

type_synonym column = "string option row \<Rightarrow> string option"

text \<open>
  Line 20: \<open>pd.read_excel(uploaded_file)\<close> with its default \<open>na_values\<close>: an empty cell
  and the texts below are read as missing.
\<close>

definition STR_NA_VALUES :: "string list" where
  "STR_NA_VALUES =
     ['''', ''#N/A'', ''#N/A N/A'', ''#NA'', ''-1.#IND'', ''-1.#QNAN'', ''-NaN'', ''-nan'',
      ''1.#IND'', ''1.#QNAN'', ''<NA>'', ''N/A'', ''NA'', ''NULL'', ''NaN'', ''None'',
      ''n/a'', ''nan'', ''null'']"

definition read_cell :: "string \<Rightarrow> string option" where
  "read_cell c = (if c \<in> set STR_NA_VALUES then None else Some c)"

definition read_row :: "string row \<Rightarrow> string option row" where
  "read_row r =
     \<lparr>Region = read_cell (Region r), GOVERNORATE = read_cell (GOVERNORATE r),
      DELEGATION = read_cell (DELEGATION r), Area = read_cell (Area r),
      pop_block = pop_block r\<rparr>"

definition load_data :: "string row list \<Rightarrow> frame" where
  "load_data uploaded_file = zip [0..<length uploaded_file] (map read_row uploaded_file)"

datatype strat_display = Region_choice | Governorate_choice | Delegation_choice

fun STRAT_VAR_MAP :: "strat_display \<Rightarrow> column" where
  "STRAT_VAR_MAP Region_choice = Region"
| "STRAT_VAR_MAP Governorate_choice = GOVERNORATE"
| "STRAT_VAR_MAP Delegation_choice = DELEGATION"

text \<open>
  The exceptions the two sampling branches can raise: \<open>IndexError\<close> from
  \<open>strata.iloc[-1, -1]\<close> on a table without rows and from taking a position that is not
  in the frame, and the three \<open>ValueError\<close>s of \<open>DataFrame.sample\<close> and \<open>pd.concat\<close>.
\<close>

datatype value_error =
    Negative_rows_requested
  | Larger_sample_than_population
  | No_objects_to_concatenate

datatype error = IndexError | ValueError value_error

record strata_row =
  skey :: string
  Nh :: int
  nh :: int

text \<open>
  The variables of one run of the script. \<open>df\<close> is bound before either branch runs;
  the others are unbound (\<open>None\<close>) until the branch assigns them. The requested size \<open>n\<close>
  comes from a number input that admits the integers from 1 to \<open>len(df)\<close>.
\<close>

record vars =
  df :: frame
  sample :: "frame option"
  strata :: "strata_row list option"
  samples :: "frame list option"
  final_sample :: "frame option"

definition start :: "frame \<Rightarrow> vars" where
  "start d = \<lparr>df = d, sample = None, strata = None, samples = None, final_sample = None\<rparr>"

section \<open>Library operations\<close>

text \<open>
  \<open>np.round\<close> rounds to the nearest integer and a half to the even neighbour. The script
  applies it to the float64 quotient \<open>n * Nh / N\<close> of two integers; below \<open>2 ^ 52\<close> both
  are exact in float64 and the correctly rounded quotient lies on the same side of every
  half-integer as the exact one, so the quotient is taken as a rational number.
\<close>

definition np_round :: "rat \<Rightarrow> int" where
  "np_round x =
     (let f = \<lfloor>x\<rfloor>; d = x - of_int f
      in if d < 1 / 2 then f
         else if 1 / 2 < d then f + 1
         else if even f then f else f + 1)"

text \<open>
  \<open>df.groupby(col).size().reset_index(name='Nh')\<close>, with the defaults \<open>sort=True\<close> and
  \<open>dropna=True\<close>: the rows whose key is missing are dropped (\<open>dropna\<close> is what is left),
  and there is one row per distinct value of the column among the others, in sorted order
  of the values, with the number of records having it. \<open>rows_where col k d\<close> is the
  selection \<open>d[d[col] == k]\<close>; a missing cell equals nothing.
\<close>

definition dropna :: "column \<Rightarrow> frame \<Rightarrow> frame" where
  "dropna col d = filter (\<lambda>(i, r). col r \<noteq> None) d"

definition rows_where :: "column \<Rightarrow> string \<Rightarrow> frame \<Rightarrow> frame" where
  "rows_where col k d = filter (\<lambda>(i, r). col r = Some k) d"

definition groupby_size :: "column \<Rightarrow> frame \<Rightarrow> (string \<times> int) list" where
  "groupby_size col d =
     map (\<lambda>k. (k, int (length (rows_where col k d))))
       (sort (remdups (List.map_filter (\<lambda>(i, r). col r) d)))"

text \<open>
  \<open>d.sample(n=k, random_state=seed)\<close>. pandas builds a fresh \<open>RandomState(seed)\<close> and
  asks it for \<open>choice(len(d), size=k, replace=False)\<close>, then takes the rows at the
  positions drawn. The generator is the parameter \<open>rs\<close>: \<open>rs seed N k\<close> is the list of
  positions that the generator seeded with \<open>seed\<close> draws first.
\<close>

type_synonym random_state = "nat \<Rightarrow> nat \<Rightarrow> nat \<Rightarrow> nat list"

definition pd_sample :: "random_state \<Rightarrow> frame \<Rightarrow> int \<Rightarrow> nat \<Rightarrow> error + frame" where
  "pd_sample rs d k seed =
     (if k < 0 then Inl (ValueError Negative_rows_requested)
      else if int (length d) < k then Inl (ValueError Larger_sample_than_population)
      else let locs = rs seed (length d) (nat k)
           in if list_all (\<lambda>p. p < length d) locs then Inr (map (\<lambda>p. d ! p) locs)
              else Inl IndexError)"

definition pd_concat :: "frame list \<Rightarrow> error + frame" where
  "pd_concat fs = (if fs = [] then Inl (ValueError No_objects_to_concatenate) else Inr (concat fs))"

text \<open>
  What \<open>choice(N, size=k, replace=False)\<close> gives whenever it returns: \<open>k\<close> distinct
  positions below \<open>N\<close>.
\<close>

definition without_replacement :: "(nat \<Rightarrow> nat \<Rightarrow> nat list) \<Rightarrow> bool" where
  "without_replacement ch \<longleftrightarrow>
     (\<forall>N k. k \<le> N \<longrightarrow> length (ch N k) = k \<and> distinct (ch N k) \<and> set (ch N k) \<subseteq> {..<N})"

section \<open>Simple random sampling branch\<close>

text \<open>Line 158: \<open>sample = df.sample(n=n, random_state=42)\<close>.\<close>

definition srswor :: "random_state \<Rightarrow> int \<Rightarrow> vars \<Rightarrow> error + vars" where
  "srswor rs n v =
     (case pd_sample rs (df v) n 42 of
        Inl e \<Rightarrow> Inl e
      | Inr s \<Rightarrow> Inr (v\<lparr>sample := Some s\<rparr>))"

section \<open>Stratified sampling branch\<close>

text \<open>
  Line 253: the column \<open>nh\<close> of rounded proportional shares; the divisor is
  \<open>strata['Nh'].sum()\<close>.
\<close>

definition proportional :: "int \<Rightarrow> (string \<times> int) list \<Rightarrow> strata_row list" where
  "proportional n g =
     (let N = sum_list (map snd g)
      in map (\<lambda>(k, c). \<lparr>skey = k, Nh = c, nh = np_round (of_int (n * c) / of_int N)\<rparr>) g)"

text \<open>Lines 255 to 257: the residual goes to the last row of the table.\<close>

definition fix_rounding :: "int \<Rightarrow> strata_row list \<Rightarrow> error + strata_row list" where
  "fix_rounding n st =
     (let diff = n - sum_list (map nh st)
      in if diff \<noteq> 0 then
           (if st = [] then Inl IndexError
            else Inr (butlast st @ [(last st)\<lparr>nh := nh (last st) + diff\<rparr>]))
         else Inr st)"

definition allocate :: "column \<Rightarrow> int \<Rightarrow> frame \<Rightarrow> error + strata_row list" where
  "allocate col n d = fix_rounding n (proportional n (groupby_size col d))"

text \<open>Lines 259 to 263: one draw per row of the table, in order; the first failure ends the run.\<close>

fun draw_all :: "random_state \<Rightarrow> column \<Rightarrow> frame \<Rightarrow> strata_row list \<Rightarrow> error + frame list" where
  "draw_all rs col d [] = Inr []"
| "draw_all rs col d (s # ss) =
     (case pd_sample rs (rows_where col (skey s) d) (nh s) 42 of
        Inl e \<Rightarrow> Inl e
      | Inr x \<Rightarrow> (case draw_all rs col d ss of Inl e \<Rightarrow> Inl e | Inr xs \<Rightarrow> Inr (x # xs)))"

definition stratified :: "random_state \<Rightarrow> strat_display \<Rightarrow> int \<Rightarrow> vars \<Rightarrow> error + vars" where
  "stratified rs strat_display n v =
     (let strat_var = STRAT_VAR_MAP strat_display
      in case allocate strat_var n (df v) of
           Inl e \<Rightarrow> Inl e
         | Inr st \<Rightarrow>
            (case draw_all rs strat_var (df v) st of
               Inl e \<Rightarrow> Inl e
             | Inr sm \<Rightarrow>
                (case pd_concat sm of
                   Inl e \<Rightarrow> Inl e
                 | Inr fs \<Rightarrow> Inr (v\<lparr>strata := Some st, samples := Some sm, final_sample := Some fs\<rparr>))))"

section \<open>Reference definitions and concrete inputs\<close>

text \<open>
  The rounding that the specification names for step 3 of the allocator, written from its
  words: to the nearest integer, a half going away from zero. It is compared with
  \<open>np_round\<close> below.
\<close>

definition round_half_away_from_zero :: "rat \<Rightarrow> int" where
  "round_half_away_from_zero x = (if 0 \<le> x then \<lfloor>x + 1 / 2\<rfloor> else - \<lfloor>- x + 1 / 2\<rfloor>)"

text \<open>A sheet row whose three geographic cells all hold the same text.\<close>

definition block :: "string \<Rightarrow> string row" where
  "block k = \<lparr>Region = k, GOVERNORATE = k, DELEGATION = k, Area = ''Urban'', pop_block = Some 1\<rparr>"

definition two_blocks :: "string row list" where
  "two_blocks = [block ''A'', block ''B'']"

definition seven_blocks :: "string row list" where
  "seven_blocks =
     [block ''A'', block ''A'', block ''B'', block ''B'', block ''C'', block ''C'', block ''D'']"

definition thousand_blocks :: "string row list" where
  "thousand_blocks = replicate 333 (block ''A'') @ replicate 333 (block ''B'') @ replicate 334 (block ''C'')"

text \<open>Sheets with missing cells: one unfilled geographic cell, and none filled at all.\<close>

definition one_missing :: "string row list" where
  "one_missing = [block ''NA'', block ''A'', block ''B'']"

definition all_missing :: "string row list" where
  "all_missing = [block '''', block ''NA'']"

text \<open>
  A generator for the closed examples: whatever the seed, it draws the last \<open>k\<close>
  positions, highest first.
\<close>

definition last_first :: random_state where
  "last_first seed N k = take k (rev [0..<N])"

section \<open>Rounding\<close>

lemma np_round_of_int: "np_round (of_int m) = m"
  by (simp add: np_round_def)

lemma np_round_nearest: "\<bar>of_int (np_round x) - x\<bar> \<le> 1 / 2"
proof -
  have "of_int \<lfloor>x\<rfloor> \<le> x" "x < of_int \<lfloor>x\<rfloor> + 1" by linarith+
  then show ?thesis by (auto simp: np_round_def Let_def)
qed

lemma np_round_tie_even: "\<bar>of_int (np_round x) - x\<bar> = 1 / 2 \<Longrightarrow> even (np_round x)"
proof -
  have "of_int \<lfloor>x\<rfloor> \<le> x" "x < of_int \<lfloor>x\<rfloor> + 1" by linarith+
  then show "\<bar>of_int (np_round x) - x\<bar> = 1 / 2 \<Longrightarrow> even (np_round x)"
    by (auto simp: np_round_def Let_def split: if_splits)
qed

lemma np_round_le: "x \<le> of_int m \<Longrightarrow> np_round x \<le> m"
proof -
  assume a: "x \<le> of_int m"
  have "\<bar>of_int (np_round x) - x\<bar> \<le> 1 / 2" by (rule np_round_nearest)
  then have "of_int (np_round x) < (of_int m :: rat) + 1" using a by linarith
  then have "of_int (np_round x) < (of_int (m + 1) :: rat)" by simp
  then have "np_round x < m + 1" by (simp only: of_int_less_iff)
  then show ?thesis by simp
qed

lemma np_round_ge: "of_int m \<le> x \<Longrightarrow> m \<le> np_round x"
proof -
  assume a: "of_int m \<le> x"
  have "\<bar>of_int (np_round x) - x\<bar> \<le> 1 / 2" by (rule np_round_nearest)
  then have "(of_int m :: rat) - 1 < of_int (np_round x)" using a by linarith
  then have "(of_int (m - 1) :: rat) < of_int (np_round x)" by simp
  then have "m - 1 < np_round x" by (simp only: of_int_less_iff)
  then show ?thesis by simp
qed

text \<open>The rounded quotient of two integers, in integer arithmetic.\<close>

lemma np_round_div:
  assumes "0 < b"
  shows "np_round (of_int a / of_int b) =
    (if 2 * (a mod b) < b then a div b
     else if b < 2 * (a mod b) then a div b + 1
     else if even (a div b) then a div b else a div b + 1)"
proof -
  let ?x = "of_int a / of_int b :: rat"
  have f: "\<lfloor>?x\<rfloor> = a div b" by (simp add: floor_divide_of_int_eq)
  have "of_int a = (of_int (a div b) * of_int b + of_int (a mod b) :: rat)"
    by (metis of_int_add of_int_mult div_mult_mod_eq)
  then have d: "?x - of_int (a div b) = of_int (a mod b) / of_int b"
    using assms by (simp add: field_simps)
  have lt: "?x - of_int (a div b) < 1 / 2 \<longleftrightarrow> 2 * (a mod b) < b"
  proof -
    have "of_int (a mod b) / (of_int b :: rat) < 1 / 2 \<longleftrightarrow> (of_int (2 * (a mod b)) :: rat) < of_int b"
      using assms by (simp add: field_simps)
    then show ?thesis unfolding d by (simp only: of_int_less_iff)
  qed
  have gt: "1 / 2 < ?x - of_int (a div b) \<longleftrightarrow> b < 2 * (a mod b)"
  proof -
    have "1 / 2 < of_int (a mod b) / (of_int b :: rat) \<longleftrightarrow> (of_int b :: rat) < of_int (2 * (a mod b))"
      using assms by (simp add: field_simps)
    then show ?thesis unfolding d by (simp only: of_int_less_iff)
  qed
  show ?thesis
    unfolding np_round_def Let_def f lt gt by simp
qed

section \<open>Frames, grouping and the allocation table\<close>

lemma map_snd_load_data: "map snd (load_data f) = map read_row f"
  by (simp add: load_data_def)

lemma map_fst_load_data: "map fst (load_data f) = [0..<length f]"
  by (simp add: load_data_def)

lemma length_load_data: "length (load_data f) = length f"
  by (simp add: load_data_def)

lemma distinct_load_data: "distinct (map fst (load_data f))"
  by (simp add: map_fst_load_data)

lemma seven_length: "int (length (load_data seven_blocks)) = 7"
  by (simp add: load_data_def seven_blocks_def)

lemma length_rows_where:
  "length (rows_where col k d) = count_list (List.map_filter (\<lambda>(i, r). col r) d) k"
  by (induction d) (auto simp: rows_where_def map_filter_simps split: option.splits)

lemma length_dropna: "length (dropna col d) = length (List.map_filter (\<lambda>(i, r). col r) d)"
  by (induction d) (auto simp: dropna_def map_filter_simps split: option.splits)

lemma set_keys: "set (List.map_filter (\<lambda>(i, r). col r) d) = {k. \<exists>i r. (i, r) \<in> set d \<and> col r = Some k}"
  by (induction d) (auto simp: map_filter_simps split: option.splits)

lemma groupby_size_keys:
  "map fst (groupby_size col d) = sort (remdups (List.map_filter (\<lambda>(i, r). col r) d))"
  by (simp add: groupby_size_def comp_def)

lemma groupby_size_counts:
  "map snd (groupby_size col d) =
     map (\<lambda>k. int (length (rows_where col k d)))
       (sort (remdups (List.map_filter (\<lambda>(i, r). col r) d)))"
  by (simp add: groupby_size_def comp_def)

lemma groupby_size_sum: "sum_list (map snd (groupby_size col d)) = int (length (dropna col d))"
proof -
  let ?ks = "List.map_filter (\<lambda>(i, r). col r) d"
  let ?K = "sort (remdups ?ks)"
  have dK: "distinct ?K" by simp
  have sK: "set ?K = set ?ks" by simp
  have "sum_list (map snd (groupby_size col d)) = (\<Sum>k\<leftarrow>?K. int (count_list ?ks k))"
    by (simp add: groupby_size_counts length_rows_where)
  also have "\<dots> = (\<Sum>k\<in>set ?K. int (count_list ?ks k))"
    using dK by (rule sum_list_distinct_conv_sum_set)
  also have "\<dots> = int (\<Sum>k\<in>set ?ks. count_list ?ks k)"
    unfolding sK by simp
  also have "\<dots> = int (length ?ks)"
    by (simp add: sum_count_set)
  finally show ?thesis by (simp add: length_dropna)
qed

lemma groupby_size_nonempty: "dropna col d \<noteq> [] \<Longrightarrow> groupby_size col d \<noteq> []"
proof -
  assume "dropna col d \<noteq> []"
  then have "List.map_filter (\<lambda>(i, r). col r) d \<noteq> []"
    using length_dropna [of col d] by (metis length_0_conv)
  then have "set (sort (remdups (List.map_filter (\<lambda>(i, r). col r) d))) \<noteq> {}" by simp
  then have "sort (remdups (List.map_filter (\<lambda>(i, r). col r) d)) \<noteq> []"
    by (simp only: set_empty not_False_eq_True)
  then show ?thesis by (simp add: groupby_size_def)
qed

lemma groupby_size_empty: "dropna col d = [] \<Longrightarrow> groupby_size col d = []"
proof -
  assume "dropna col d = []"
  then have "List.map_filter (\<lambda>(i, r). col r) d = []"
    using length_dropna [of col d] by (metis length_0_conv)
  then show ?thesis by (simp add: groupby_size_def)
qed

lemma groupby_size_entry:
  "(k, c) \<in> set (groupby_size col d) \<Longrightarrow> c = int (length (rows_where col k d)) \<and> 0 < c"
proof -
  let ?ks = "List.map_filter (\<lambda>(i, r). col r) d"
  assume "(k, c) \<in> set (groupby_size col d)"
  then have k: "k \<in> set ?ks" and c: "c = int (length (rows_where col k d))"
    by (auto simp: groupby_size_def)
  from k have "count_list ?ks k \<noteq> 0" by (simp only: count_list_0_iff not_not)
  then have "0 < count_list ?ks k" by simp
  then show ?thesis using c by (simp add: length_rows_where)
qed

lemma groupby_size_distinct: "distinct (map fst (groupby_size col d))"
  by (simp add: groupby_size_keys)

lemma proportional_length: "length (proportional n g) = length g"
  by (simp add: proportional_def)

lemma proportional_skey: "map skey (proportional n g) = map fst g"
  by (simp add: proportional_def Let_def comp_def case_prod_beta)

lemma proportional_Nh: "map Nh (proportional n g) = map snd g"
  by (simp add: proportional_def Let_def comp_def case_prod_beta)

lemma proportional_entry:
  assumes "s \<in> set (proportional n g)"
  shows "(skey s, Nh s) \<in> set g \<and>
         nh s = np_round (of_int (n * Nh s) / of_int (sum_list (map snd g)))"
  using assms by (auto simp: proportional_def Let_def)

lemma proportional_row:
  assumes "s \<in> set (proportional n (groupby_size col d))"
  shows "Nh s = int (length (rows_where col (skey s) d))" and "0 < Nh s"
  using proportional_entry [OF assms] groupby_size_entry by blast+

lemma proportional_nonempty: "dropna col d \<noteq> [] \<Longrightarrow> proportional n (groupby_size col d) \<noteq> []"
  using groupby_size_nonempty [of col d] proportional_length [of n "groupby_size col d"]
  by (metis length_0_conv)

lemma proportional_Nh_sum:
  "sum_list (map Nh (proportional n (groupby_size col d))) = int (length (dropna col d))"
  by (simp add: proportional_Nh groupby_size_sum)

text \<open>On a table with at least one row the correction never fails.\<close>

lemma fix_rounding_Inr:
  assumes "st \<noteq> []"
  shows "fix_rounding n st =
    Inr (butlast st @ [(last st)\<lparr>nh := nh (last st) + (n - sum_list (map nh st))\<rparr>])"
proof (cases "n - sum_list (map nh st) = 0")
  case True
  then have "(last st)\<lparr>nh := nh (last st) + (n - sum_list (map nh st))\<rparr> = last st" by simp
  then have "butlast st @ [(last st)\<lparr>nh := nh (last st) + (n - sum_list (map nh st))\<rparr>] = st"
    using assms by simp
  then show ?thesis using True by (simp add: fix_rounding_def)
next
  case False
  then show ?thesis using assms by (simp add: fix_rounding_def Let_def)
qed

lemma sum_nh_split:
  "st \<noteq> [] \<Longrightarrow> sum_list (map nh st) = sum_list (map nh (butlast st)) + nh (last st)"
proof -
  assume "st \<noteq> []"
  then have "st = butlast st @ [last st]" by simp
  then have "sum_list (map nh st) = sum_list (map nh (butlast st @ [last st]))" by simp
  then show ?thesis by simp
qed

lemma nth_butlast_snoc: "i + 1 < length xs \<Longrightarrow> (butlast xs @ [y]) ! i = xs ! i"
  by (simp add: nth_append nth_butlast less_diff_conv)

lemma fix_rounding_sum:
  assumes "st \<noteq> []"
  shows "sum_list (map nh (butlast st @ [(last st)\<lparr>nh := nh (last st) + (n - sum_list (map nh st))\<rparr>])) = n"
  using sum_nh_split [OF assms] by simp

lemma allocate_Inr:
  assumes "dropna col d \<noteq> []"
  shows "allocate col n d =
    Inr (butlast (proportional n (groupby_size col d)) @
         [(last (proportional n (groupby_size col d)))
            \<lparr>nh := nh (last (proportional n (groupby_size col d))) +
                   (n - sum_list (map nh (proportional n (groupby_size col d))))\<rparr>])"
  unfolding allocate_def by (rule fix_rounding_Inr) (rule proportional_nonempty [OF assms])

lemma allocate_no_strata:
  assumes "dropna col d = []" and "n \<noteq> 0"
  shows "allocate col n d = Inl IndexError"
  using assms(2) by (simp add: allocate_def groupby_size_empty [OF assms(1)] proportional_def fix_rounding_def)

lemma fix_rounding_columns:
  assumes "fix_rounding n r = Inr st"
  shows "map skey st = map skey r \<and> map Nh st = map Nh r"
proof (cases "r = []")
  case True
  then show ?thesis using assms by (simp add: fix_rounding_def Let_def split: if_splits)
next
  case False
  then have "r = butlast r @ [last r]" by simp
  then have k: "map skey r = map skey (butlast r) @ [skey (last r)]"
    and c: "map Nh r = map Nh (butlast r) @ [Nh (last r)]"
    by (metis list.simps(8,9) map_append)+
  have "st = butlast r @ [(last r)\<lparr>nh := nh (last r) + (n - sum_list (map nh r))\<rparr>]"
    using assms fix_rounding_Inr [OF False, of n] by simp
  then show ?thesis using k c by simp
qed

lemma allocate_columns:
  assumes "allocate col n d = Inr st"
  shows "map skey st = map fst (groupby_size col d)" and "map Nh st = map snd (groupby_size col d)"
  using fix_rounding_columns [OF assms [unfolded allocate_def]]
  by (simp_all add: proportional_skey proportional_Nh)

lemma allocate_row:
  assumes "allocate col n d = Inr st" and "s \<in> set st"
  shows "Nh s = int (length (rows_where col (skey s) d))"
proof -
  from assms(2) obtain i where i: "i < length st" and s: "s = st ! i"
    by (auto simp: in_set_conv_nth)
  have l: "length (groupby_size col d) = length st"
    using allocate_columns(1) [OF assms(1)] by (metis length_map)
  have "skey s = fst (groupby_size col d ! i)"
    using allocate_columns(1) [OF assms(1)] i l s by (metis nth_map)
  moreover have "Nh s = snd (groupby_size col d ! i)"
    using allocate_columns(2) [OF assms(1)] i l s by (metis nth_map)
  moreover have "groupby_size col d ! i \<in> set (groupby_size col d)" using i l by simp
  ultimately have "(skey s, Nh s) \<in> set (groupby_size col d)" by simp
  then show ?thesis by (rule groupby_size_entry [THEN conjunct1])
qed

section \<open>Bounds on the rounded shares\<close>

lemma proportional_nonneg:
  assumes "0 \<le> n" and "s \<in> set (proportional n (groupby_size col d))"
  shows "0 \<le> nh s"
proof -
  let ?N = "int (length (dropna col d))"
  from proportional_entry [OF assms(2)]
  have r: "nh s = np_round (of_int (n * Nh s) / of_int ?N)"
    by (simp add: groupby_size_sum)
  have c: "0 < Nh s" by (rule proportional_row(2) [OF assms(2)])
  have "0 \<le> n * Nh s" using assms(1) c by simp
  then have "(0 :: rat) \<le> of_int (n * Nh s)" by (simp only: of_int_0_le_iff)
  moreover have "(0 :: rat) \<le> of_int ?N" by simp
  ultimately have "(of_int 0 :: rat) \<le> of_int (n * Nh s) / of_int ?N" by simp
  then show "0 \<le> nh s" unfolding r by (rule np_round_ge)
qed

lemma proportional_feasible:
  assumes "0 \<le> n" and "n \<le> int (length (dropna col d))"
    and "s \<in> set (proportional n (groupby_size col d))"
  shows "0 \<le> nh s \<and> nh s \<le> Nh s"
proof -
  let ?N = "int (length (dropna col d))"
  from proportional_entry [OF assms(3)]
  have e: "(skey s, Nh s) \<in> set (groupby_size col d)"
    and r: "nh s = np_round (of_int (n * Nh s) / of_int ?N)"
    by (simp_all add: groupby_size_sum)
  have c: "0 < Nh s" by (rule proportional_row(2) [OF assms(3)])
  have "dropna col d \<noteq> []" using e groupby_size_empty [of col d] by auto
  then have N: "0 < ?N" by simp
  have "n * Nh s \<le> Nh s * ?N" using assms(2) c by (simp add: mult.commute)
  then have "(of_int (n * Nh s) :: rat) \<le> of_int (Nh s * ?N)" by (simp only: of_int_le_iff)
  then have "(of_int (n * Nh s) :: rat) / of_int ?N \<le> of_int (Nh s)"
    using N by (simp add: field_simps)
  then have up: "nh s \<le> Nh s" unfolding r by (rule np_round_le)
  show ?thesis using up proportional_nonneg [OF assms(1,3)] by simp
qed

lemma proportional_census:
  assumes "s \<in> set (proportional (int (length (dropna col d))) (groupby_size col d))"
  shows "nh s = Nh s"
proof -
  let ?N = "int (length (dropna col d))"
  from proportional_entry [OF assms]
  have e: "(skey s, Nh s) \<in> set (groupby_size col d)"
    and r: "nh s = np_round (of_int (?N * Nh s) / of_int ?N)"
    by (simp_all add: groupby_size_sum)
  have "dropna col d \<noteq> []" using e groupby_size_empty [of col d] by auto
  then have "0 < ?N" by simp
  then have "(of_int (?N * Nh s) :: rat) / of_int ?N = of_int (Nh s)" by simp
  then show ?thesis unfolding r by (simp only: np_round_of_int)
qed

lemma census_sum:
  "sum_list (map nh (proportional (int (length (dropna col d))) (groupby_size col d)))
     = int (length (dropna col d))"
proof -
  let ?r = "proportional (int (length (dropna col d))) (groupby_size col d)"
  have "map nh ?r = map Nh ?r"
    using proportional_census [of _ col d] by simp
  then show ?thesis by (simp only: proportional_Nh_sum)
qed

section \<open>The population of 333, 333 and 334 records\<close>

lemma count_list_replicate: "count_list (replicate m x) k = (if x = k then m else 0)"
  by (induction m) auto

lemma remdups_replicate_append: "0 < m \<Longrightarrow> remdups (replicate m x @ ys) = remdups (x # ys)"
  by (induction m) auto

lemma map_filter_Some: "List.map_filter (\<lambda>x. Some (f x)) xs = map f xs"
  by (induction xs) (simp_all add: map_filter_simps)

lemma read_ABC:
  "read_cell ''A'' = Some ''A''" "read_cell ''B'' = Some ''B''" "read_cell ''C'' = Some ''C''"
  by code_simp+

lemma map_filter_snd: "List.map_filter (\<lambda>(i, r). g r) d = List.map_filter g (map snd d)"
  by (induction d) (auto simp: map_filter_simps split: option.splits)

lemma map_filter_of_map: "List.map_filter g (map h xs) = List.map_filter (\<lambda>x. g (h x)) xs"
  by (induction xs) (auto simp: map_filter_simps split: option.splits)

lemma map_filter_replicate_Some:
  "g x = Some y \<Longrightarrow> List.map_filter g (replicate m x) = replicate m y"
  by (induction m) (auto simp: map_filter_simps)

lemma map_filter_app: "List.map_filter g (xs @ ys) = List.map_filter g xs @ List.map_filter g ys"
  by (induction xs) (auto simp: map_filter_simps split: option.splits)

lemma keys_of_load_data:
  "List.map_filter (\<lambda>(i, r). col r) (load_data f) = List.map_filter (\<lambda>x. col (read_row x)) f"
  by (simp only: map_filter_snd map_snd_load_data map_filter_of_map)

lemma Region_block_ABC:
  "Region (read_row (block ''A'')) = Some ''A''"
  "Region (read_row (block ''B'')) = Some ''B''"
  "Region (read_row (block ''C'')) = Some ''C''"
  by (simp_all add: read_row_def block_def read_ABC)

lemma keys_of_thousand:
  "List.map_filter (\<lambda>(i, r). Region r) (load_data thousand_blocks) =
     replicate 333 ''A'' @ replicate 333 ''B'' @ replicate 334 ''C''"
  unfolding keys_of_load_data thousand_blocks_def map_filter_app
  by (simp only: map_filter_replicate_Some [where g = "\<lambda>x. Region (read_row x)", OF Region_block_ABC(1)]
        map_filter_replicate_Some [where g = "\<lambda>x. Region (read_row x)", OF Region_block_ABC(2)]
        map_filter_replicate_Some [where g = "\<lambda>x. Region (read_row x)", OF Region_block_ABC(3)])

lemma sort_ABC: "sort [''A'', ''B'', ''C''] = [''A'', ''B'', ''C'']"
  by code_simp

lemma sorted_keys_of_thousand:
  "sort (remdups (List.map_filter (\<lambda>(i, r). Region r) (load_data thousand_blocks))) =
     [''A'', ''B'', ''C'']"
proof -
  have "remdups (List.map_filter (\<lambda>(i, r). Region r) (load_data thousand_blocks)) =
      [''A'', ''B'', ''C'']"
    unfolding keys_of_thousand
    using remdups_replicate_append [of 334 "''C''" "[]"]
    by (simp add: remdups_replicate_append)
  then show ?thesis by (simp only: sort_ABC)
qed

lemma groupby_thousand:
  "groupby_size Region (load_data thousand_blocks) = [(''A'', 333), (''B'', 333), (''C'', 334)]"
proof -
  have "groupby_size Region (load_data thousand_blocks) =
      map (\<lambda>k. (k, int (length (rows_where Region k (load_data thousand_blocks)))))
        [''A'', ''B'', ''C'']"
    by (simp only: groupby_size_def sorted_keys_of_thousand)
  then show ?thesis by (simp add: length_rows_where keys_of_thousand count_list_replicate)
qed

lemma proportional_thousand:
  "proportional 100 (groupby_size Region (load_data thousand_blocks)) =
     [\<lparr>skey = ''A'', Nh = 333, nh = 33\<rparr>, \<lparr>skey = ''B'', Nh = 333, nh = 33\<rparr>,
      \<lparr>skey = ''C'', Nh = 334, nh = 33\<rparr>]"
proof -
  have "np_round (333 / 10) = 33" and "np_round (167 / 5) = 33" by code_simp+
  then show ?thesis unfolding groupby_thousand by (simp add: proportional_def)
qed

lemma allocate_thousand:
  "allocate Region 100 (load_data thousand_blocks) =
     Inr [\<lparr>skey = ''A'', Nh = 333, nh = 33\<rparr>, \<lparr>skey = ''B'', Nh = 333, nh = 33\<rparr>,
          \<lparr>skey = ''C'', Nh = 334, nh = 34\<rparr>]"
  unfolding allocate_def proportional_thousand by (simp add: fix_rounding_def)

lemma seven_dropna: "dropna Region (load_data seven_blocks) \<noteq> []"
  by code_simp

lemma seven_dropna_length: "int (length (dropna Region (load_data seven_blocks))) = 7"
  by code_simp

section \<open>The allocated sizes add up to the requested total\<close>

text \<open>
  Claim C1 says that for every non-empty population table, every stratification field and
  every \<open>n\<close> with \<open>1 \<le> n \<le> N\<close> the sizes \<open>nh\<close> sum to \<open>n\<close> after the correction. On a
  sheet of two records whose geographic cells are all unfilled the table of strata is
  empty, and for \<open>n = 1\<close> the correction step fails with \<open>IndexError\<close>: there is no
  allocation at all.
\<close>

theorem allocation_without_strata_counterexample:
  "load_data all_missing \<noteq> [] \<and> (1::int) \<le> 1 \<and> 1 \<le> int (length (load_data all_missing)) \<and>
   groupby_size (STRAT_VAR_MAP Region_choice) (load_data all_missing) = [] \<and>
   allocate (STRAT_VAR_MAP Region_choice) 1 (load_data all_missing) = Inl IndexError"
  by code_simp

text \<open>
  Claim C1, amended. For every population table in which at least one record has a value
  in the stratification field, and every \<open>n\<close> with \<open>1 \<le> n \<le> N\<close>, where \<open>N\<close> is the number
  of records, the allocation step (lines 252 to 257) returns a table, and the sizes \<open>nh\<close> of
  that table, after the residual has been added to the last row, sum to exactly \<open>n\<close>.
\<close>

theorem allocation_sums_to_n:
  assumes "dropna (STRAT_VAR_MAP strat_display) d \<noteq> []" and "1 \<le> n" and "n \<le> int (length d)"
  shows "\<exists>st. allocate (STRAT_VAR_MAP strat_display) n d = Inr st \<and> sum_list (map nh st) = n"
  using allocate_Inr [OF assms(1)] fix_rounding_sum [OF proportional_nonempty [OF assms(1)]]
  by simp

theorem allocation_sums_to_n_witness:
  "dropna (STRAT_VAR_MAP Region_choice) (load_data seven_blocks) \<noteq> [] \<and> (1::int) \<le> 5 \<and>
   5 \<le> int (length (load_data seven_blocks)) \<and>
   (\<exists>st. allocate (STRAT_VAR_MAP Region_choice) 5 (load_data seven_blocks) = Inr st \<and>
         sum_list (map nh st) = 5)"
proof -
  have a: "dropna (STRAT_VAR_MAP Region_choice) (load_data seven_blocks) \<noteq> []"
    by (simp add: seven_dropna)
  have b: "(1::int) \<le> 5" by simp
  have c: "5 \<le> int (length (load_data seven_blocks))" by (simp add: seven_length)
  show ?thesis
    using a b c allocation_sums_to_n [OF a b c] by blast
qed

section \<open>Full census\<close>

text \<open>
  Claim C9 says that with \<open>n\<close> equal to \<open>N\<close> every stratum gets \<open>nh = Nh\<close> and the residual
  is zero. On a sheet of three records, one of them with its geographic cells unfilled,
  \<open>n = 3\<close> is the number of records; the two strata have \<open>Nh = 1\<close> each, the rounded shares
  are 2 and 2, the residual is \<open>-1\<close>, and the allocation is 2 and 1.
\<close>

theorem census_counterexample:
  "(3::int) = int (length (load_data one_missing)) \<and>
   proportional 3 (groupby_size (STRAT_VAR_MAP Region_choice) (load_data one_missing)) =
     [\<lparr>skey = ''A'', Nh = 1, nh = 2\<rparr>, \<lparr>skey = ''B'', Nh = 1, nh = 2\<rparr>] \<and>
   3 - sum_list (map nh (proportional 3
         (groupby_size (STRAT_VAR_MAP Region_choice) (load_data one_missing)))) = - 1 \<and>
   allocate (STRAT_VAR_MAP Region_choice) 3 (load_data one_missing) =
     Inr [\<lparr>skey = ''A'', Nh = 1, nh = 2\<rparr>, \<lparr>skey = ''B'', Nh = 1, nh = 1\<rparr>]"
  by code_simp

text \<open>
  Claim C9, amended. When \<open>n\<close> equals the sum of the \<open>Nh\<close>, which is the number of records
  that have a value in the stratification field (and is \<open>N\<close> when no record lacks one), and
  there is at least one such record, the rounding residual is zero and the allocation
  table, with one row per distinct value of the field, in sorted order, and \<open>Nh\<close> the number
  of records having that value, gives every stratum \<open>nh = Nh\<close>.
\<close>

theorem census_when_n_is_sum_of_Nh:
  assumes "dropna (STRAT_VAR_MAP strat_display) d \<noteq> []"
    and "n = int (length (dropna (STRAT_VAR_MAP strat_display) d))"
  shows "sum_list (map Nh (proportional n (groupby_size (STRAT_VAR_MAP strat_display) d))) = n \<and>
         n - sum_list (map nh (proportional n (groupby_size (STRAT_VAR_MAP strat_display) d))) = 0 \<and>
         (\<exists>st. allocate (STRAT_VAR_MAP strat_display) n d = Inr st \<and>
               map skey st =
                 sort (remdups (List.map_filter (\<lambda>(i, r). STRAT_VAR_MAP strat_display r) d)) \<and>
               (\<forall>s\<in>set st. Nh s = int (length (rows_where (STRAT_VAR_MAP strat_display) (skey s) d)) \<and>
                    nh s = Nh s))"
proof -
  let ?col = "STRAT_VAR_MAP strat_display"
  let ?r = "proportional n (groupby_size ?col d)"
  have s: "sum_list (map Nh ?r) = n" unfolding assms(2) by (rule proportional_Nh_sum)
  have z: "n - sum_list (map nh ?r) = 0" unfolding assms(2) by (simp add: census_sum)
  then have a: "allocate ?col n d = Inr ?r" by (simp add: allocate_def fix_rounding_def)
  have k: "map skey ?r = sort (remdups (List.map_filter (\<lambda>(i, r). ?col r) d))"
    by (simp add: proportional_skey groupby_size_keys)
  have e: "\<forall>s\<in>set ?r. Nh s = int (length (rows_where ?col (skey s) d)) \<and> nh s = Nh s"
    unfolding assms(2) using proportional_census proportional_row(1) by blast
  show ?thesis using s z a k e by blast
qed

theorem census_when_n_is_sum_of_Nh_witness:
  "dropna (STRAT_VAR_MAP Region_choice) (load_data seven_blocks) \<noteq> [] \<and>
   (7::int) = int (length (dropna (STRAT_VAR_MAP Region_choice) (load_data seven_blocks))) \<and>
   7 - sum_list (map nh (proportional 7 (groupby_size (STRAT_VAR_MAP Region_choice) (load_data seven_blocks)))) = 0 \<and>
   (\<exists>st. allocate (STRAT_VAR_MAP Region_choice) 7 (load_data seven_blocks) = Inr st \<and>
         (\<forall>s\<in>set st. Nh s = int (length (rows_where (STRAT_VAR_MAP Region_choice) (skey s) (load_data seven_blocks))) \<and>
              nh s = Nh s))"
proof -
  have a: "dropna (STRAT_VAR_MAP Region_choice) (load_data seven_blocks) \<noteq> []"
    by (simp add: seven_dropna)
  have b: "(7::int) = int (length (dropna (STRAT_VAR_MAP Region_choice) (load_data seven_blocks)))"
    by (simp add: seven_dropna_length)
  show ?thesis
    using a b census_when_n_is_sum_of_Nh [OF a b] by blast
qed

section \<open>The residual goes to the last stratum\<close>

text \<open>
  Claim C5. Whenever the table of strata has a row, that is, some record has a value in
  the stratification field, the allocation returns the table of rounded shares with the
  whole residual \<open>diff = n - sum(rounded nh)\<close> added to the \<open>nh\<close> of its last row and every
  other row left as rounded. For the population of 333 records of \<open>A\<close>, 333 of \<open>B\<close> and 334
  of \<open>C\<close> with \<open>n = 100\<close> the rounded shares are 33, 33, 33, the residual is 1, and the
  final allocation is 33, 33, 34.
\<close>

theorem residual_applied_to_last_stratum:
  assumes "dropna (STRAT_VAR_MAP strat_display) d \<noteq> []"
  shows "(\<exists>st. allocate (STRAT_VAR_MAP strat_display) n d = Inr st \<and>
           length st = length (proportional n (groupby_size (STRAT_VAR_MAP strat_display) d)) \<and>
           (\<forall>i. i + 1 < length st \<longrightarrow>
                st ! i = proportional n (groupby_size (STRAT_VAR_MAP strat_display) d) ! i) \<and>
           skey (last st) = skey (last (proportional n (groupby_size (STRAT_VAR_MAP strat_display) d))) \<and>
           Nh (last st) = Nh (last (proportional n (groupby_size (STRAT_VAR_MAP strat_display) d))) \<and>
           nh (last st) =
             nh (last (proportional n (groupby_size (STRAT_VAR_MAP strat_display) d))) +
             (n - sum_list (map nh (proportional n (groupby_size (STRAT_VAR_MAP strat_display) d))))) \<and>
         map nh (proportional 100 (groupby_size (STRAT_VAR_MAP Region_choice) (load_data thousand_blocks)))
           = [33, 33, 33] \<and>
         100 - sum_list (map nh (proportional 100
             (groupby_size (STRAT_VAR_MAP Region_choice) (load_data thousand_blocks)))) = 1 \<and>
         allocate (STRAT_VAR_MAP Region_choice) 100 (load_data thousand_blocks) =
           Inr [\<lparr>skey = ''A'', Nh = 333, nh = 33\<rparr>, \<lparr>skey = ''B'', Nh = 333, nh = 33\<rparr>,
                \<lparr>skey = ''C'', Nh = 334, nh = 34\<rparr>]"
proof -
  let ?r = "proportional n (groupby_size (STRAT_VAR_MAP strat_display) d)"
  let ?st = "butlast ?r @ [(last ?r)\<lparr>nh := nh (last ?r) + (n - sum_list (map nh ?r))\<rparr>]"
  have ne: "?r \<noteq> []" by (rule proportional_nonempty [OF assms])
  have a: "allocate (STRAT_VAR_MAP strat_display) n d = Inr ?st" by (rule allocate_Inr [OF assms])
  have l: "length ?st = length ?r" using ne by simp
  have i: "\<forall>i. i + 1 < length ?st \<longrightarrow> ?st ! i = ?r ! i"
    unfolding l by (intro allI impI) (rule nth_butlast_snoc)
  have general: "\<exists>st. allocate (STRAT_VAR_MAP strat_display) n d = Inr st \<and>
      length st = length ?r \<and> (\<forall>i. i + 1 < length st \<longrightarrow> st ! i = ?r ! i) \<and>
      skey (last st) = skey (last ?r) \<and> Nh (last st) = Nh (last ?r) \<and>
      nh (last st) = nh (last ?r) + (n - sum_list (map nh ?r))"
    using a l i by (intro exI [of _ ?st]) simp
  have e1: "map nh (proportional 100 (groupby_size (STRAT_VAR_MAP Region_choice) (load_data thousand_blocks)))
           = [33, 33, 33]"
    by (simp add: proportional_thousand)
  have e2: "100 - sum_list (map nh (proportional 100
             (groupby_size (STRAT_VAR_MAP Region_choice) (load_data thousand_blocks)))) = 1"
    by (simp add: proportional_thousand)
  have e3: "allocate (STRAT_VAR_MAP Region_choice) 100 (load_data thousand_blocks) =
           Inr [\<lparr>skey = ''A'', Nh = 333, nh = 33\<rparr>, \<lparr>skey = ''B'', Nh = 333, nh = 33\<rparr>,
                \<lparr>skey = ''C'', Nh = 334, nh = 34\<rparr>]"
    by (simp add: allocate_thousand)
  from general e1 e2 e3 show ?thesis by (intro conjI)
qed

theorem residual_applied_to_last_stratum_witness:
  "dropna (STRAT_VAR_MAP Region_choice) (load_data seven_blocks) \<noteq> [] \<and>
   (\<exists>st. allocate (STRAT_VAR_MAP Region_choice) 5 (load_data seven_blocks) = Inr st \<and>
      length st = length (proportional 5 (groupby_size (STRAT_VAR_MAP Region_choice) (load_data seven_blocks))) \<and>
      (\<forall>i. i + 1 < length st \<longrightarrow>
           st ! i = proportional 5 (groupby_size (STRAT_VAR_MAP Region_choice) (load_data seven_blocks)) ! i) \<and>
      skey (last st) =
        skey (last (proportional 5 (groupby_size (STRAT_VAR_MAP Region_choice) (load_data seven_blocks)))) \<and>
      Nh (last st) =
        Nh (last (proportional 5 (groupby_size (STRAT_VAR_MAP Region_choice) (load_data seven_blocks)))) \<and>
      nh (last st) =
        nh (last (proportional 5 (groupby_size (STRAT_VAR_MAP Region_choice) (load_data seven_blocks)))) +
        (5 - sum_list (map nh (proportional 5
               (groupby_size (STRAT_VAR_MAP Region_choice) (load_data seven_blocks))))))"
proof -
  have a: "dropna (STRAT_VAR_MAP Region_choice) (load_data seven_blocks) \<noteq> []"
    by (simp add: seven_dropna)
  show ?thesis
    using a residual_applied_to_last_stratum [OF a, of 5] by blast
qed

section \<open>Bounds of the final allocation\<close>

text \<open>
  Claim C3 says that every entry of the allocation table satisfies \<open>0 \<le> nh \<le> Nh\<close> when
  \<open>1 \<le> n \<le> N\<close>. On seven records in strata of sizes 2, 2, 2 and 1 it fails both ways: with
  \<open>n = 2\<close> the last stratum gets \<open>nh = -1\<close>, and with \<open>n = 5\<close> it gets \<open>nh = 2\<close> out of
  \<open>Nh = 1\<close>. On three records of which one has no value in the field, \<open>n = 3\<close> gives the
  first stratum \<open>nh = 2\<close> out of \<open>Nh = 1\<close>.
\<close>

theorem allocation_within_stratum_counterexample:
  "(1::int) \<le> 2 \<and> 2 \<le> int (length (load_data seven_blocks)) \<and>
   allocate (STRAT_VAR_MAP Region_choice) 2 (load_data seven_blocks) =
     Inr [\<lparr>skey = ''A'', Nh = 2, nh = 1\<rparr>, \<lparr>skey = ''B'', Nh = 2, nh = 1\<rparr>,
          \<lparr>skey = ''C'', Nh = 2, nh = 1\<rparr>, \<lparr>skey = ''D'', Nh = 1, nh = - 1\<rparr>] \<and>
   (1::int) \<le> 5 \<and> 5 \<le> int (length (load_data seven_blocks)) \<and>
   allocate (STRAT_VAR_MAP Region_choice) 5 (load_data seven_blocks) =
     Inr [\<lparr>skey = ''A'', Nh = 2, nh = 1\<rparr>, \<lparr>skey = ''B'', Nh = 2, nh = 1\<rparr>,
          \<lparr>skey = ''C'', Nh = 2, nh = 1\<rparr>, \<lparr>skey = ''D'', Nh = 1, nh = 2\<rparr>] \<and>
   (1::int) \<le> 3 \<and> 3 \<le> int (length (load_data one_missing)) \<and>
   allocate (STRAT_VAR_MAP Region_choice) 3 (load_data one_missing) =
     Inr [\<lparr>skey = ''A'', Nh = 1, nh = 2\<rparr>, \<lparr>skey = ''B'', Nh = 1, nh = 1\<rparr>]"
  by code_simp

text \<open>
  Claim C3, amended. For every population table, stratification field and \<open>n\<close> with
  \<open>1 \<le> n \<le> sum(Nh)\<close>, the number of records that have a value in the field (which is \<open>N\<close>
  when no record lacks one), the allocation returns a table whose \<open>Nh\<close> are the numbers of
  records of the strata, in which every entry but the last satisfies \<open>0 \<le> nh \<le> Nh\<close>, and
  the last entry satisfies \<open>diff \<le> nh \<le> Nh + diff\<close>, where \<open>diff = n - sum(rounded nh)\<close> is
  the rounding residual.
\<close>

theorem allocation_within_stratum_except_last:
  assumes "1 \<le> n" and "n \<le> int (length (dropna (STRAT_VAR_MAP strat_display) d))"
  shows "\<exists>st. allocate (STRAT_VAR_MAP strat_display) n d = Inr st \<and>
           (\<forall>s\<in>set st. Nh s = int (length (rows_where (STRAT_VAR_MAP strat_display) (skey s) d))) \<and>
           (\<forall>i. i + 1 < length st \<longrightarrow> 0 \<le> nh (st ! i) \<and> nh (st ! i) \<le> Nh (st ! i)) \<and>
           n - sum_list (map nh (proportional n (groupby_size (STRAT_VAR_MAP strat_display) d)))
             \<le> nh (last st) \<and>
           nh (last st) \<le> Nh (last st) +
             (n - sum_list (map nh (proportional n (groupby_size (STRAT_VAR_MAP strat_display) d))))"
proof -
  let ?col = "STRAT_VAR_MAP strat_display"
  let ?r = "proportional n (groupby_size ?col d)"
  let ?st = "butlast ?r @ [(last ?r)\<lparr>nh := nh (last ?r) + (n - sum_list (map nh ?r))\<rparr>]"
  have dn: "dropna ?col d \<noteq> []" using assms by auto
  have ne: "?r \<noteq> []" by (rule proportional_nonempty [OF dn])
  have n0: "0 \<le> n" using assms(1) by simp
  have feas: "\<And>s. s \<in> set ?r \<Longrightarrow> 0 \<le> nh s \<and> nh s \<le> Nh s"
    by (rule proportional_feasible [OF n0 assms(2)])
  have a: "allocate ?col n d = Inr ?st" by (rule allocate_Inr [OF dn])
  have rows: "\<forall>s\<in>set ?st. Nh s = int (length (rows_where ?col (skey s) d))"
    using allocate_row [OF a] by blast
  have l: "length ?st = length ?r" using ne by simp
  have inner: "\<forall>i. i + 1 < length ?st \<longrightarrow> 0 \<le> nh (?st ! i) \<and> nh (?st ! i) \<le> Nh (?st ! i)"
  proof (intro allI impI)
    fix i assume "i + 1 < length ?st"
    then have i: "i + 1 < length ?r" unfolding l .
    then have "?st ! i = ?r ! i" by (rule nth_butlast_snoc)
    moreover have "?r ! i \<in> set ?r" using i by simp
    ultimately show "0 \<le> nh (?st ! i) \<and> nh (?st ! i) \<le> Nh (?st ! i)" using feas by simp
  qed
  have "last ?r \<in> set ?r" using ne by simp
  then have lastb: "0 \<le> nh (last ?r) \<and> nh (last ?r) \<le> Nh (last ?r)" by (rule feas)
  have "n - sum_list (map nh ?r) \<le> nh (last ?st) \<and>
      nh (last ?st) \<le> Nh (last ?st) + (n - sum_list (map nh ?r))"
    using lastb by simp
  with a rows inner show ?thesis by blast
qed

theorem allocation_within_stratum_except_last_witness:
  "(1::int) \<le> 5 \<and>
   5 \<le> int (length (dropna (STRAT_VAR_MAP Region_choice) (load_data seven_blocks))) \<and>
   (\<exists>st. allocate (STRAT_VAR_MAP Region_choice) 5 (load_data seven_blocks) = Inr st \<and>
      (\<forall>s\<in>set st. Nh s = int (length (rows_where (STRAT_VAR_MAP Region_choice) (skey s) (load_data seven_blocks)))) \<and>
      (\<forall>i. i + 1 < length st \<longrightarrow> 0 \<le> nh (st ! i) \<and> nh (st ! i) \<le> Nh (st ! i)) \<and>
      5 - sum_list (map nh (proportional 5 (groupby_size (STRAT_VAR_MAP Region_choice) (load_data seven_blocks))))
        \<le> nh (last st) \<and>
      nh (last st) \<le> Nh (last st) +
        (5 - sum_list (map nh (proportional 5 (groupby_size (STRAT_VAR_MAP Region_choice) (load_data seven_blocks))))))"
proof -
  have a: "(1::int) \<le> 5" by simp
  have b: "5 \<le> int (length (dropna (STRAT_VAR_MAP Region_choice) (load_data seven_blocks)))"
    by (simp add: seven_dropna_length)
  show ?thesis
    using a b allocation_within_stratum_except_last [OF a b] by blast
qed

section \<open>Rounding of the proportional shares\<close>

text \<open>
  Claim C2 says that the share \<open>n * Nh / N\<close> is rounded with halves going away from zero.
  With two strata of one record each and \<open>n = 1\<close> both shares are one half: the script
  rounds them to 0, and rounding half away from zero gives 1.
\<close>

theorem rounding_half_away_counterexample:
  "groupby_size (STRAT_VAR_MAP Region_choice) (load_data two_blocks) = [(''A'', 1), (''B'', 1)] \<and>
   proportional 1 (groupby_size (STRAT_VAR_MAP Region_choice) (load_data two_blocks)) =
     [\<lparr>skey = ''A'', Nh = 1, nh = 0\<rparr>, \<lparr>skey = ''B'', Nh = 1, nh = 0\<rparr>] \<and>
   round_half_away_from_zero (of_int (1 * 1) / of_int (1 + 1)) = 1"
  by code_simp

text \<open>
  Claim C2, amended. For every stratum, \<open>Nh\<close> is the number of records having the stratum's
  value in the field, the divisor \<open>N\<close> is the sum of the \<open>Nh\<close>, that is, the number of records
  that have a value in the field, and the \<open>nh\<close> computed in step 3, before the correction,
  is an integer nearest to \<open>n * Nh / N\<close>; where the share lies exactly half way between two
  integers it is the even one.
\<close>

theorem rounding_half_to_even:
  assumes "s \<in> set (proportional n (groupby_size (STRAT_VAR_MAP strat_display) d))"
  shows "Nh s = int (length (rows_where (STRAT_VAR_MAP strat_display) (skey s) d)) \<and>
         sum_list (map Nh (proportional n (groupby_size (STRAT_VAR_MAP strat_display) d))) =
           int (length (dropna (STRAT_VAR_MAP strat_display) d)) \<and>
         \<bar>of_int (nh s) -
            (of_int (n * Nh s) /
             of_int (sum_list (map Nh (proportional n (groupby_size (STRAT_VAR_MAP strat_display) d))))
               :: rat)\<bar> \<le> 1 / 2 \<and>
         (\<bar>of_int (nh s) -
            (of_int (n * Nh s) /
             of_int (sum_list (map Nh (proportional n (groupby_size (STRAT_VAR_MAP strat_display) d))))
               :: rat)\<bar> = 1 / 2
            \<longrightarrow> even (nh s))"
proof -
  let ?g = "groupby_size (STRAT_VAR_MAP strat_display) d"
  have t: "sum_list (map Nh (proportional n ?g)) = sum_list (map snd ?g)"
    by (simp only: proportional_Nh)
  from proportional_entry [OF assms]
  have r: "nh s = np_round (of_int (n * Nh s) / of_int (sum_list (map Nh (proportional n ?g))))"
    unfolding t by simp
  have c: "Nh s = int (length (rows_where (STRAT_VAR_MAP strat_display) (skey s) d))"
    by (rule proportional_row(1) [OF assms])
  have u: "sum_list (map Nh (proportional n ?g)) = int (length (dropna (STRAT_VAR_MAP strat_display) d))"
    by (rule proportional_Nh_sum)
  have "\<bar>of_int (nh s) -
      (of_int (n * Nh s) / of_int (sum_list (map Nh (proportional n ?g))) :: rat)\<bar> \<le> 1 / 2"
    unfolding r [symmetric, THEN arg_cong [where f = of_int]] using np_round_nearest r by metis
  moreover have "\<bar>of_int (nh s) -
      (of_int (n * Nh s) / of_int (sum_list (map Nh (proportional n ?g))) :: rat)\<bar> = 1 / 2
      \<Longrightarrow> even (nh s)"
    using np_round_tie_even r by metis
  ultimately show ?thesis using c u by blast
qed

theorem rounding_half_to_even_witness:
  "\<lparr>skey = ''A'', Nh = 1, nh = 2\<rparr>
     \<in> set (proportional 3 (groupby_size (STRAT_VAR_MAP Region_choice) (load_data one_missing))) \<and>
   sum_list (map Nh (proportional 3 (groupby_size (STRAT_VAR_MAP Region_choice) (load_data one_missing)))) = 2 \<and>
   \<bar>of_int (nh \<lparr>skey = ''A'', Nh = 1, nh = 2\<rparr>) -
     (of_int (3 * Nh \<lparr>skey = ''A'', Nh = 1, nh = 2\<rparr>) / of_int 2 :: rat)\<bar> = 1 / 2 \<and>
   even (nh \<lparr>skey = ''A'', Nh = 1, nh = 2\<rparr>)"
proof -
  have m: "\<lparr>skey = ''A'', Nh = 1, nh = 2\<rparr>
     \<in> set (proportional 3 (groupby_size (STRAT_VAR_MAP Region_choice) (load_data one_missing)))"
    by code_simp
  have u: "sum_list (map Nh (proportional 3 (groupby_size (STRAT_VAR_MAP Region_choice) (load_data one_missing)))) = 2"
    by code_simp
  have t: "\<bar>of_int (nh \<lparr>skey = ''A'', Nh = 1, nh = 2\<rparr>) -
     (of_int (3 * Nh \<lparr>skey = ''A'', Nh = 1, nh = 2\<rparr>) / of_int 2 :: rat)\<bar> = 1 / 2"
    by simp
  show ?thesis using m u t rounding_half_to_even [OF m, unfolded u] by blast
qed

section \<open>Drawing rows\<close>

lemma last_first_without_replacement: "without_replacement (last_first seed)"
proof -
  have "\<And>N k. set (take k (rev [0..<N])) \<subseteq> {..<N}"
  proof -
    fix N k
    have "set (take k (rev [0..<N])) \<subseteq> set (rev [0..<N])" by (rule set_take_subset)
    then show "set (take k (rev [0..<N])) \<subseteq> {..<N}" by auto
  qed
  then show ?thesis by (simp add: without_replacement_def last_first_def)
qed


lemma drawn_positions:
  assumes "without_replacement (rs seed)" and "0 \<le> k" and "k \<le> int (length d)"
  shows "length (rs seed (length d) (nat k)) = nat k"
    and "distinct (rs seed (length d) (nat k))"
    and "\<forall>p\<in>set (rs seed (length d) (nat k)). p < length d"
proof -
  have "nat k \<le> length d" using assms(2,3) by simp
  with assms(1) have
    "length (rs seed (length d) (nat k)) = nat k \<and> distinct (rs seed (length d) (nat k)) \<and>
     set (rs seed (length d) (nat k)) \<subseteq> {..<length d}"
    unfolding without_replacement_def by blast
  then show "length (rs seed (length d) (nat k)) = nat k"
    and "distinct (rs seed (length d) (nat k))"
    and "\<forall>p\<in>set (rs seed (length d) (nat k)). p < length d"
    by auto
qed

lemma pd_sample_Inr:
  assumes "without_replacement (rs seed)" and "0 \<le> k" and "k \<le> int (length d)"
  shows "pd_sample rs d k seed = Inr (map (\<lambda>p. d ! p) (rs seed (length d) (nat k)))"
  using drawn_positions(3) [of rs seed, OF assms] assms(2,3)
  by (simp add: pd_sample_def Let_def list_all_iff)

lemma take_rows_length:
  assumes "without_replacement (rs seed)" and "0 \<le> k" and "k \<le> int (length d)"
  shows "int (length (map (\<lambda>p. d ! p) (rs seed (length d) (nat k)))) = k"
  using drawn_positions(1) [of rs seed, OF assms] assms(2) by simp

lemma take_rows_subset:
  assumes "without_replacement (rs seed)" and "0 \<le> k" and "k \<le> int (length d)"
  shows "set (map (\<lambda>p. d ! p) (rs seed (length d) (nat k))) \<subseteq> set d"
  using drawn_positions(3) [of rs seed, OF assms] by auto

lemma take_rows_distinct:
  assumes "without_replacement (rs seed)" and "0 \<le> k" and "k \<le> int (length d)"
    and "distinct (map fst d)"
  shows "distinct (map fst (map (\<lambda>p. d ! p) (rs seed (length d) (nat k))))"
proof -
  let ?locs = "rs seed (length d) (nat k)"
  have b: "\<forall>p\<in>set ?locs. p < length (map fst d)"
    using drawn_positions(3) [of rs seed, OF assms(1-3)] by simp
  have "inj_on (nth (map fst d)) (set ?locs)"
    using assms(4) b by (rule inj_on_nth)
  then have "distinct (map (nth (map fst d)) ?locs)"
    using drawn_positions(2) [of rs seed, OF assms(1-3)] by (simp add: distinct_map)
  moreover have "map fst (map (\<lambda>p. d ! p) ?locs) = map (nth (map fst d)) ?locs"
    using drawn_positions(3) [of rs seed, OF assms(1-3)] by simp
  ultimately show ?thesis by (simp only:)
qed

section \<open>Simple random sampling\<close>

text \<open>
  Claim C7. For every population table of \<open>N\<close> records (each with its own index label) and
  every \<open>n\<close> with \<open>1 \<le> n \<le> N\<close>, the simple random sampling branch returns: the sample it
  binds has exactly \<open>n\<close> rows, no index label and no row occurs twice in it, every row of it
  is a row of the population table, and the variable \<open>df\<close> holds the same table after the
  run as before.
\<close>

theorem srswor_draws_n_distinct_records:
  assumes "without_replacement (rs 42)" and "distinct (map fst (df v))"
    and "1 \<le> n" and "n \<le> int (length (df v))"
  shows "\<exists>v' s. srswor rs n v = Inr v' \<and> df v' = df v \<and> sample v' = Some s \<and>
           int (length s) = n \<and> distinct (map fst s) \<and> distinct s \<and> set s \<subseteq> set (df v)"
proof -
  let ?s = "map (\<lambda>p. df v ! p) (rs 42 (length (df v)) (nat n))"
  have n0: "0 \<le> n" using assms(3) by simp
  have r: "srswor rs n v = Inr (v\<lparr>sample := Some ?s\<rparr>)"
    by (simp add: srswor_def pd_sample_Inr [of rs 42, OF assms(1) n0 assms(4)])
  have l: "int (length ?s) = n" by (rule take_rows_length [of rs 42, OF assms(1) n0 assms(4)])
  have d: "distinct (map fst ?s)" by (rule take_rows_distinct [of rs 42, OF assms(1) n0 assms(4) assms(2)])
  then have d': "distinct ?s" by (rule distinct_map [THEN iffD1, THEN conjunct1])
  have sub: "set ?s \<subseteq> set (df v)" by (rule take_rows_subset [of rs 42, OF assms(1) n0 assms(4)])
  show ?thesis
    using r l d d' sub
    by (intro exI [of _ "v\<lparr>sample := Some ?s\<rparr>"] exI [of _ ?s]) simp
qed

theorem srswor_draws_n_distinct_records_witness:
  "without_replacement (last_first 42) \<and>
   distinct (map fst (df (start (load_data seven_blocks)))) \<and>
   (1::int) \<le> 3 \<and> 3 \<le> int (length (df (start (load_data seven_blocks)))) \<and>
   (\<exists>v' s. srswor last_first 3 (start (load_data seven_blocks)) = Inr v' \<and>
      df v' = df (start (load_data seven_blocks)) \<and> sample v' = Some s \<and>
      int (length s) = 3 \<and> distinct (map fst s) \<and> distinct s \<and>
      set s \<subseteq> set (df (start (load_data seven_blocks))))"
proof -
  have a: "without_replacement (last_first 42)" by (rule last_first_without_replacement)
  have b: "distinct (map fst (df (start (load_data seven_blocks))))"
    by (simp add: start_def distinct_load_data)
  have c: "(1::int) \<le> 3" by simp
  have d: "3 \<le> int (length (df (start (load_data seven_blocks))))"
    by (simp add: start_def seven_length)
  show ?thesis
    using a b c d srswor_draws_n_distinct_records [of last_first, OF a b c d] by blast
qed

section \<open>The per-stratum draws\<close>

lemma draw_all_append:
  "draw_all rs col d (xs @ ys) =
     (case draw_all rs col d xs of
        Inl e \<Rightarrow> Inl e
      | Inr a \<Rightarrow> (case draw_all rs col d ys of Inl e \<Rightarrow> Inl e | Inr b \<Rightarrow> Inr (a @ b)))"
  by (induction xs) (auto split: sum.splits)

lemma draw_all_Inr:
  assumes "without_replacement (rs 42)"
  shows "\<forall>s\<in>set ss. 0 \<le> nh s \<and> nh s \<le> int (length (rows_where col (skey s) d)) \<Longrightarrow>
         draw_all rs col d ss =
           Inr (map (\<lambda>s. map (\<lambda>p. rows_where col (skey s) d ! p)
                             (rs 42 (length (rows_where col (skey s) d)) (nat (nh s)))) ss)"
proof (induction ss)
  case Nil
  show ?case by simp
next
  case (Cons s ss)
  have a: "0 \<le> nh s" and b: "nh s \<le> int (length (rows_where col (skey s) d))"
    using Cons.prems by simp_all
  have "\<forall>s\<in>set ss. 0 \<le> nh s \<and> nh s \<le> int (length (rows_where col (skey s) d))"
    using Cons.prems by simp
  then show ?case
    by (simp add: Cons.IH pd_sample_Inr [of rs 42, OF assms a b])
qed

lemma rows_where_subset: "set (rows_where col k d) \<subseteq> set d"
  by (auto simp: rows_where_def)

lemma rows_where_key: "(l, r) \<in> set (rows_where col k d) \<Longrightarrow> col r = Some k"
  by (auto simp: rows_where_def)

lemma rows_where_distinct: "distinct (map fst d) \<Longrightarrow> distinct (map fst (rows_where col k d))"
  unfolding rows_where_def by (rule distinct_map_filter)

lemma draws_distinct:
  fixes rs :: random_state
  assumes "without_replacement (rs 42)" and "distinct (map fst d)"
  shows "distinct (map skey ss) \<Longrightarrow>
         \<forall>s\<in>set ss. 0 \<le> nh s \<and> nh s \<le> int (length (rows_where col (skey s) d)) \<Longrightarrow>
         distinct (map fst (concat (map (\<lambda>s. map (\<lambda>p. rows_where col (skey s) d ! p)
                             (rs 42 (length (rows_where col (skey s) d)) (nat (nh s)))) ss)))"
proof (induction ss)
  case Nil
  show ?case by simp
next
  case (Cons s ss)
  let ?f = "\<lambda>s. map (\<lambda>p. rows_where col (skey s) d ! p)
                   (rs 42 (length (rows_where col (skey s) d)) (nat (nh s)))"
  have sub: "\<And>t. t \<in> set (s # ss) \<Longrightarrow> set (?f t) \<subseteq> set (rows_where col (skey t) d)"
  proof -
    fix t assume "t \<in> set (s # ss)"
    then have "0 \<le> nh t" and "nh t \<le> int (length (rows_where col (skey t) d))"
      using Cons.prems(2) by blast+
    then show "set (?f t) \<subseteq> set (rows_where col (skey t) d)"
      by (rule take_rows_subset [of rs 42, OF assms(1)])
  qed
  have a: "0 \<le> nh s" and b: "nh s \<le> int (length (rows_where col (skey s) d))"
    using Cons.prems(2) by simp_all
  have d1: "distinct (map fst (?f s))"
    by (rule take_rows_distinct [of rs 42, OF assms(1) a b rows_where_distinct [OF assms(2)]])
  have d2: "distinct (map fst (concat (map ?f ss)))"
    using Cons.IH Cons.prems by simp
  have disj: "fst ` set (?f s) \<inter> fst ` set (concat (map ?f ss)) = {}"
  proof (rule ccontr)
    assume "fst ` set (?f s) \<inter> fst ` set (concat (map ?f ss)) \<noteq> {}"
    then obtain l r r' t where x: "(l, r) \<in> set (?f s)" and t: "t \<in> set ss"
      and y: "(l, r') \<in> set (?f t)"
      by fastforce
    from x sub [of s] have xs: "(l, r) \<in> set (rows_where col (skey s) d)" by auto
    from y t sub [of t] have ys: "(l, r') \<in> set (rows_where col (skey t) d)" by auto
    have "(l, r) \<in> set d" and "(l, r') \<in> set d"
      using xs ys rows_where_subset by blast+
    with assms(2) have "r = r'" by (rule eq_key_imp_eq_value)
    then have "skey s = skey t"
      using rows_where_key [OF xs] rows_where_key [OF ys] by simp
    then show False using t Cons.prems(1) by auto
  qed
  have "distinct (map fst (?f s) @ map fst (concat (map ?f ss)))"
    using d1 d2 disj by (simp only: distinct_append set_map simp_thms)
  moreover have "map fst (concat (map ?f (s # ss))) = map fst (?f s) @ map fst (concat (map ?f ss))"
    by simp
  ultimately show ?case by (simp only:)
qed

lemma draws_length:
  fixes rs :: random_state
  assumes "without_replacement (rs 42)"
  shows "\<forall>s\<in>set ss. 0 \<le> nh s \<and> nh s \<le> int (length (rows_where col (skey s) d)) \<Longrightarrow>
         int (length (concat (map (\<lambda>s. map (\<lambda>p. rows_where col (skey s) d ! p)
                             (rs 42 (length (rows_where col (skey s) d)) (nat (nh s)))) ss)))
           = sum_list (map nh ss)"
proof (induction ss)
  case Nil
  show ?case by simp
next
  case (Cons s ss)
  have a: "0 \<le> nh s" and b: "nh s \<le> int (length (rows_where col (skey s) d))"
    using Cons.prems by simp_all
  have "\<forall>s\<in>set ss. 0 \<le> nh s \<and> nh s \<le> int (length (rows_where col (skey s) d))"
    using Cons.prems by simp
  then show ?case
    using Cons.IH take_rows_length [of rs 42, OF assms a b] by simp
qed




lemma allocate_has_strata:
  assumes "allocate col n d = Inr st" and "n \<noteq> 0"
  shows "st \<noteq> []"
proof (cases "dropna col d = []")
  case True
  then show ?thesis using assms allocate_no_strata [of col d n] by simp
next
  case False
  then show ?thesis using assms(1) allocate_Inr [OF False, of n] by auto
qed

section \<open>The stratified sample\<close>

text \<open>
  Claim C6. For every stratified draw (the population table has a record and \<open>n\<close> is at
  least 1, as the number input requires) whose allocation table is feasible
  (\<open>0 \<le> nh \<le> Nh\<close> in every row) the run returns: the combined
  sample is the concatenation of one sample per stratum, in the order of the table; it has
  exactly \<open>sum(nh)\<close> rows; no index label and no row occurs twice in it; its rows are rows
  of the population table; and the sample drawn for a stratum has \<open>nh\<close> rows, each with the
  stratum's key in the stratification field.
\<close>

theorem stratified_sample_of_feasible_allocation:
  assumes "without_replacement (rs 42)" and "distinct (map fst (df v))" and "df v \<noteq> []"
    and "1 \<le> n" and "allocate (STRAT_VAR_MAP strat_display) n (df v) = Inr st"
    and "\<forall>s\<in>set st. 0 \<le> nh s \<and> nh s \<le> Nh s"
  shows "\<exists>v' sm fs. stratified rs strat_display n v = Inr v' \<and>
           strata v' = Some st \<and> samples v' = Some sm \<and> final_sample v' = Some fs \<and>
           fs = concat sm \<and> length sm = length st \<and>
           int (length fs) = sum_list (map nh st) \<and>
           distinct (map fst fs) \<and> distinct fs \<and> set fs \<subseteq> set (df v) \<and>
           (\<forall>i<length st. int (length (sm ! i)) = nh (st ! i) \<and>
              (\<forall>(l, r)\<in>set (sm ! i). STRAT_VAR_MAP strat_display r = Some (skey (st ! i))))"
proof -
  let ?col = "STRAT_VAR_MAP strat_display"
  let ?f = "\<lambda>s. map (\<lambda>p. rows_where ?col (skey s) (df v) ! p)
                   (rs 42 (length (rows_where ?col (skey s) (df v))) (nat (nh s)))"
  let ?sm = "map ?f st"
  let ?fs = "concat ?sm"
  have feas: "\<forall>s\<in>set st. 0 \<le> nh s \<and> nh s \<le> int (length (rows_where ?col (skey s) (df v)))"
    using assms(6) allocate_row [OF assms(5)] by simp
  have keys: "distinct (map skey st)"
    using allocate_columns(1) [OF assms(5)] groupby_size_distinct [of ?col "df v"] by simp
  have "n \<noteq> 0" using assms(4) by simp
  then have "st \<noteq> []" by (rule allocate_has_strata [OF assms(5)])
  then have ne: "?sm \<noteq> []" by simp
  have dr: "draw_all rs ?col (df v) st = Inr ?sm" by (rule draw_all_Inr [of rs, OF assms(1) feas])
  have run: "stratified rs strat_display n v =
      Inr (v\<lparr>strata := Some st, samples := Some ?sm, final_sample := Some ?fs\<rparr>)"
    using ne by (simp add: stratified_def Let_def assms(5) dr pd_concat_def)
  have len: "int (length ?fs) = sum_list (map nh st)" by (rule draws_length [of rs, OF assms(1) feas])
  have dist: "distinct (map fst ?fs)" by (rule draws_distinct [of rs, OF assms(1,2) keys feas])
  then have dist': "distinct ?fs" by (rule distinct_map [THEN iffD1, THEN conjunct1])
  have each: "\<And>i. i < length st \<Longrightarrow> int (length (?sm ! i)) = nh (st ! i) \<and>
      set (?sm ! i) \<subseteq> set (rows_where ?col (skey (st ! i)) (df v))"
  proof -
    fix i assume i: "i < length st"
    then have "st ! i \<in> set st" by simp
    then have a: "0 \<le> nh (st ! i)"
      and b: "nh (st ! i) \<le> int (length (rows_where ?col (skey (st ! i)) (df v)))"
      using feas by blast+
    have "int (length (?f (st ! i))) = nh (st ! i)"
      by (rule take_rows_length [of rs 42, OF assms(1) a b])
    moreover have "set (?f (st ! i)) \<subseteq> set (rows_where ?col (skey (st ! i)) (df v))"
      by (rule take_rows_subset [of rs 42, OF assms(1) a b])
    ultimately show "int (length (?sm ! i)) = nh (st ! i) \<and>
      set (?sm ! i) \<subseteq> set (rows_where ?col (skey (st ! i)) (df v))"
      using i by simp
  qed
  have per: "\<forall>i<length st. int (length (?sm ! i)) = nh (st ! i) \<and>
      (\<forall>(l, r)\<in>set (?sm ! i). ?col r = Some (skey (st ! i)))"
    using each rows_where_key by blast
  have sub: "set ?fs \<subseteq> set (df v)"
  proof
    fix x assume "x \<in> set ?fs"
    then have "x \<in> \<Union> (set ` set ?sm)" by (simp only: set_concat)
    then obtain ys where ys: "ys \<in> set ?sm" and x: "x \<in> set ys" by blast
    from ys obtain i where i: "i < length ?sm" and e: "?sm ! i = ys"
      by (meson in_set_conv_nth)
    from i have "i < length st" by simp
    then have "set (?sm ! i) \<subseteq> set (rows_where ?col (skey (st ! i)) (df v))"
      using each by blast
    then show "x \<in> set (df v)" using x e rows_where_subset by blast
  qed
  show ?thesis
    using run len dist dist' sub per
    by (intro exI [of _ "v\<lparr>strata := Some st, samples := Some ?sm, final_sample := Some ?fs\<rparr>"]
          exI [of _ ?sm] exI [of _ ?fs]) simp
qed

theorem stratified_sample_of_feasible_allocation_witness:
  "without_replacement (last_first 42) \<and>
   distinct (map fst (df (start (load_data seven_blocks)))) \<and>
   df (start (load_data seven_blocks)) \<noteq> [] \<and> (1::int) \<le> 3 \<and>
   allocate (STRAT_VAR_MAP Region_choice) 3 (df (start (load_data seven_blocks))) =
     Inr [\<lparr>skey = ''A'', Nh = 2, nh = 1\<rparr>, \<lparr>skey = ''B'', Nh = 2, nh = 1\<rparr>,
          \<lparr>skey = ''C'', Nh = 2, nh = 1\<rparr>, \<lparr>skey = ''D'', Nh = 1, nh = 0\<rparr>] \<and>
   (\<exists>v' sm fs. stratified last_first Region_choice 3 (start (load_data seven_blocks)) = Inr v' \<and>
      strata v' = Some [\<lparr>skey = ''A'', Nh = 2, nh = 1\<rparr>, \<lparr>skey = ''B'', Nh = 2, nh = 1\<rparr>,
          \<lparr>skey = ''C'', Nh = 2, nh = 1\<rparr>, \<lparr>skey = ''D'', Nh = 1, nh = 0\<rparr>] \<and>
      samples v' = Some sm \<and> final_sample v' = Some fs \<and> fs = concat sm \<and>
      int (length fs) = 3 \<and> distinct (map fst fs) \<and>
      set fs \<subseteq> set (df (start (load_data seven_blocks))))"
proof -
  let ?st = "[\<lparr>skey = ''A'', Nh = 2, nh = 1\<rparr>, \<lparr>skey = ''B'', Nh = 2, nh = 1\<rparr>,
          \<lparr>skey = ''C'', Nh = 2, nh = 1\<rparr>, \<lparr>skey = ''D'', Nh = 1, nh = 0\<rparr>]"
  have a: "without_replacement (last_first 42)" by (rule last_first_without_replacement)
  have b: "distinct (map fst (df (start (load_data seven_blocks))))"
    by (simp add: start_def distinct_load_data)
  have c: "df (start (load_data seven_blocks)) \<noteq> []"
    by (simp add: start_def load_data_def seven_blocks_def)
  have c': "(1::int) \<le> 3" by simp
  have d: "allocate (STRAT_VAR_MAP Region_choice) 3 (df (start (load_data seven_blocks))) = Inr ?st"
    by code_simp
  have e: "\<forall>s\<in>set ?st. 0 \<le> nh s \<and> nh s \<le> Nh s" by simp
  have f: "sum_list (map nh ?st) = 3" by simp
  from stratified_sample_of_feasible_allocation [of last_first, OF a b c c' d e]
  obtain v' sm fs where
    "stratified last_first Region_choice 3 (start (load_data seven_blocks)) = Inr v'"
    "strata v' = Some ?st" "samples v' = Some sm" "final_sample v' = Some fs" "fs = concat sm"
    "int (length fs) = sum_list (map nh ?st)" "distinct (map fst fs)"
    "set fs \<subseteq> set (df (start (load_data seven_blocks)))"
    by blast
  then have "\<exists>v' sm fs. stratified last_first Region_choice 3 (start (load_data seven_blocks)) = Inr v' \<and>
      strata v' = Some ?st \<and> samples v' = Some sm \<and> final_sample v' = Some fs \<and> fs = concat sm \<and>
      int (length fs) = 3 \<and> distinct (map fst fs) \<and>
      set fs \<subseteq> set (df (start (load_data seven_blocks)))"
    unfolding f by blast
  with a b c c' d show ?thesis by blast
qed

section \<open>An allocation larger than its stratum\<close>


lemma draw_all_oversized:
  assumes "without_replacement (rs 42)"
  shows "\<forall>s\<in>set ss. Nh s = int (length (rows_where col (skey s) d)) \<Longrightarrow>
         \<forall>s\<in>set (butlast ss). 0 \<le> nh s \<Longrightarrow>
         \<exists>s\<in>set ss. Nh s < nh s \<Longrightarrow>
         draw_all rs col d ss = Inl (ValueError Larger_sample_than_population)"
proof (induction ss)
  case Nil
  then show ?case by simp
next
  case (Cons s ss)
  have c: "Nh s = int (length (rows_where col (skey s) d))" using Cons.prems(1) by simp
  show ?case
  proof (cases "Nh s < nh s")
    case True
    then have "int (length (rows_where col (skey s) d)) < nh s" using c by simp
    moreover from this have "\<not> nh s < 0" by linarith
    ultimately show ?thesis by (simp add: pd_sample_def)
  next
    case False
    then have later: "\<exists>t\<in>set ss. Nh t < nh t" using Cons.prems(3) by auto
    then have ne: "ss \<noteq> []" by auto
    then have a: "0 \<le> nh s" and rest: "\<forall>t\<in>set (butlast ss). 0 \<le> nh t"
      using Cons.prems(2) by simp_all
    have b: "nh s \<le> int (length (rows_where col (skey s) d))" using False c by simp
    have "\<forall>t\<in>set ss. Nh t = int (length (rows_where col (skey t) d))"
      using Cons.prems(1) by simp
    then have "draw_all rs col d ss = Inl (ValueError Larger_sample_than_population)"
      using rest later by (rule Cons.IH)
    then show ?thesis
      by (simp add: pd_sample_Inr [of rs 42, OF assms a b])
  qed
qed

text \<open>
  Claim C4 says that an \<open>nh\<close> exceeding its \<open>Nh\<close> ends the run with a dedicated
  infeasible-allocation error, and not with an unrelated error raised by the per-stratum
  draw. On seven records in strata of sizes 2, 2, 2 and 1 with \<open>n = 5\<close> the allocation step
  returns its table, with \<open>nh = 2\<close> for the stratum of one record, without any error; it is
  the draw that fails, with the \<open>ValueError\<close> of \<open>DataFrame.sample\<close>.
\<close>

theorem oversized_stratum_counterexample:
  "(1::int) \<le> 5 \<and> 5 \<le> int (length (load_data seven_blocks)) \<and>
   allocate (STRAT_VAR_MAP Region_choice) 5 (load_data seven_blocks) =
     Inr [\<lparr>skey = ''A'', Nh = 2, nh = 1\<rparr>, \<lparr>skey = ''B'', Nh = 2, nh = 1\<rparr>,
          \<lparr>skey = ''C'', Nh = 2, nh = 1\<rparr>, \<lparr>skey = ''D'', Nh = 1, nh = 2\<rparr>] \<and>
   draw_all last_first (STRAT_VAR_MAP Region_choice) (load_data seven_blocks)
       [\<lparr>skey = ''A'', Nh = 2, nh = 1\<rparr>, \<lparr>skey = ''B'', Nh = 2, nh = 1\<rparr>,
        \<lparr>skey = ''C'', Nh = 2, nh = 1\<rparr>, \<lparr>skey = ''D'', Nh = 1, nh = 2\<rparr>] =
     Inl (ValueError Larger_sample_than_population) \<and>
   stratified last_first Region_choice 5 (start (load_data seven_blocks)) =
     Inl (ValueError Larger_sample_than_population)"
  by code_simp

text \<open>
  Claim C4, amended. Whenever, for \<open>1 \<le> n \<le> N\<close>, the allocation assigns some stratum an
  \<open>nh\<close> exceeding its \<open>Nh\<close>, the allocation step itself returns the table unchanged, and
  the run fails in the per-stratum draw with the \<open>ValueError\<close> that \<open>DataFrame.sample\<close>
  raises for a sample larger than the population; nothing is clamped and no sample is
  produced.
\<close>

theorem oversized_stratum_fails_in_the_draw:
  assumes "without_replacement (rs 42)" and "1 \<le> n" and "n \<le> int (length (df v))"
    and "allocate (STRAT_VAR_MAP strat_display) n (df v) = Inr st"
    and "\<exists>s\<in>set st. Nh s < nh s"
  shows "draw_all rs (STRAT_VAR_MAP strat_display) (df v) st =
           Inl (ValueError Larger_sample_than_population) \<and>
         stratified rs strat_display n v = Inl (ValueError Larger_sample_than_population)"
proof -
  let ?col = "STRAT_VAR_MAP strat_display"
  let ?r = "proportional n (groupby_size ?col (df v))"
  let ?l = "(last ?r)\<lparr>nh := nh (last ?r) + (n - sum_list (map nh ?r))\<rparr>"
  have n0: "0 \<le> n" and n1: "n \<noteq> 0" using assms(2) by simp_all
  have dn: "dropna ?col (df v) \<noteq> []"
    using assms(4) allocate_no_strata [of ?col "df v" n, OF _ n1] by auto
  have st: "st = butlast ?r @ [?l]" using assms(4) allocate_Inr [OF dn, of n] by simp
  have rows: "\<forall>s\<in>set st. Nh s = int (length (rows_where ?col (skey s) (df v)))"
    using allocate_row [OF assms(4)] by blast
  have inner: "\<forall>s\<in>set (butlast st). 0 \<le> nh s"
  proof
    fix s assume "s \<in> set (butlast st)"
    then have "s \<in> set (butlast ?r)" unfolding st by simp
    then have "s \<in> set ?r" by (rule in_set_butlastD)
    then show "0 \<le> nh s" by (rule proportional_nonneg [OF n0])
  qed
  have dr: "draw_all rs ?col (df v) st = Inl (ValueError Larger_sample_than_population)"
    by (rule draw_all_oversized [of rs, OF assms(1) rows inner assms(5)])
  then show ?thesis by (simp add: stratified_def Let_def assms(4))
qed

theorem oversized_stratum_fails_in_the_draw_witness:
  "without_replacement (last_first 42) \<and> (1::int) \<le> 5 \<and>
   5 \<le> int (length (df (start (load_data seven_blocks)))) \<and>
   allocate (STRAT_VAR_MAP Region_choice) 5 (df (start (load_data seven_blocks))) =
     Inr [\<lparr>skey = ''A'', Nh = 2, nh = 1\<rparr>, \<lparr>skey = ''B'', Nh = 2, nh = 1\<rparr>,
          \<lparr>skey = ''C'', Nh = 2, nh = 1\<rparr>, \<lparr>skey = ''D'', Nh = 1, nh = 2\<rparr>] \<and>
   (\<exists>s\<in>set [\<lparr>skey = ''A'', Nh = 2, nh = 1\<rparr>, \<lparr>skey = ''B'', Nh = 2, nh = 1\<rparr>,
          \<lparr>skey = ''C'', Nh = 2, nh = 1\<rparr>, \<lparr>skey = ''D'', Nh = 1, nh = 2\<rparr>]. Nh s < nh s) \<and>
   draw_all last_first (STRAT_VAR_MAP Region_choice) (df (start (load_data seven_blocks)))
       [\<lparr>skey = ''A'', Nh = 2, nh = 1\<rparr>, \<lparr>skey = ''B'', Nh = 2, nh = 1\<rparr>,
        \<lparr>skey = ''C'', Nh = 2, nh = 1\<rparr>, \<lparr>skey = ''D'', Nh = 1, nh = 2\<rparr>] =
     Inl (ValueError Larger_sample_than_population) \<and>
   stratified last_first Region_choice 5 (start (load_data seven_blocks)) =
     Inl (ValueError Larger_sample_than_population)"
proof -
  let ?st = "[\<lparr>skey = ''A'', Nh = 2, nh = 1\<rparr>, \<lparr>skey = ''B'', Nh = 2, nh = 1\<rparr>,
          \<lparr>skey = ''C'', Nh = 2, nh = 1\<rparr>, \<lparr>skey = ''D'', Nh = 1, nh = 2\<rparr>]"
  have a: "without_replacement (last_first 42)" by (rule last_first_without_replacement)
  have b: "(1::int) \<le> 5" by simp
  have c: "5 \<le> int (length (df (start (load_data seven_blocks))))"
    by (simp add: start_def seven_length)
  have d: "allocate (STRAT_VAR_MAP Region_choice) 5 (df (start (load_data seven_blocks))) = Inr ?st"
    by code_simp
  have e: "\<exists>s\<in>set ?st. Nh s < nh s" by simp
  show ?thesis
    using a b c d e oversized_stratum_fails_in_the_draw [of last_first, OF a b c d e] by blast
qed

section \<open>A population with a single stratum\<close>

lemma single_value_column:
  "\<forall>(l, r)\<in>set d. col r = Some k \<Longrightarrow>
   List.map_filter (\<lambda>(i, r). col r) d = replicate (length d) k"
  by (induction d) (auto simp: map_filter_simps)

lemma single_value_rows_where:
  assumes "\<forall>(l, r)\<in>set d. col r = Some k"
  shows "rows_where col k d = d"
  unfolding rows_where_def using assms by (intro filter_True) auto

lemma single_value_groupby:
  assumes "d \<noteq> []" and "\<forall>(l, r)\<in>set d. col r = Some k"
  shows "groupby_size col d = [(k, int (length d))]"
proof -
  have "0 < length d" using assms(1) by simp
  then have "remdups (replicate (length d) k @ []) = remdups (k # [])"
    by (rule remdups_replicate_append)
  then have "sort (remdups (List.map_filter (\<lambda>(i, r). col r) d)) = [k]"
    by (simp add: single_value_column [OF assms(2)])
  then show ?thesis
    by (simp add: groupby_size_def single_value_rows_where [OF assms(2)])
qed

lemma single_value_allocate:
  assumes "d \<noteq> []" and "\<forall>(l, r)\<in>set d. col r = Some k"
  shows "allocate col n d = Inr [\<lparr>skey = k, Nh = int (length d), nh = n\<rparr>]"
proof -
  have "(of_int (n * int (length d)) :: rat) / of_int (int (length d)) = of_int n"
    using assms(1) by simp
  then have "np_round (of_int (n * int (length d)) / of_int (int (length d))) = n"
    by (simp only: np_round_of_int)
  then have "proportional n (groupby_size col d) = [\<lparr>skey = k, Nh = int (length d), nh = n\<rparr>]"
    by (simp add: single_value_groupby [OF assms] proportional_def)
  then show ?thesis by (simp add: allocate_def fix_rounding_def)
qed

text \<open>
  Claim C10. When the stratification field has one value \<open>k\<close> over the whole population
  table and \<open>1 \<le> n \<le> N\<close>, both branches return, the only row of the allocation table is
  \<open>(k, N, n)\<close>, and the final sample of the stratified branch is the sample of the simple
  random sampling branch: the same rows, in the same order.
\<close>

theorem single_stratum_equals_srswor:
  assumes "without_replacement (rs 42)" and "1 \<le> n" and "n \<le> int (length (df v))"
    and "\<forall>(l, r)\<in>set (df v). STRAT_VAR_MAP strat_display r = Some k"
  shows "\<exists>v1 v2 s. srswor rs n v = Inr v1 \<and> stratified rs strat_display n v = Inr v2 \<and>
           sample v1 = Some s \<and> final_sample v2 = Some s \<and>
           strata v2 = Some [\<lparr>skey = k, Nh = int (length (df v)), nh = n\<rparr>]"
proof -
  let ?s = "map (\<lambda>p. df v ! p) (rs 42 (length (df v)) (nat n))"
  let ?st = "[\<lparr>skey = k, Nh = int (length (df v)), nh = n\<rparr>]"
  have ne: "df v \<noteq> []" using assms(2,3) by auto
  have n0: "0 \<le> n" using assms(2) by simp
  have ps: "pd_sample rs (df v) n 42 = Inr ?s"
    by (rule pd_sample_Inr [of rs 42, OF assms(1) n0 assms(3)])
  have r1: "srswor rs n v = Inr (v\<lparr>sample := Some ?s\<rparr>)"
    by (simp add: srswor_def ps)
  have r2: "stratified rs strat_display n v =
      Inr (v\<lparr>strata := Some ?st, samples := Some [?s], final_sample := Some ?s\<rparr>)"
    by (simp add: stratified_def Let_def single_value_allocate [OF ne assms(4)]
          single_value_rows_where [OF assms(4)] ps pd_concat_def)
  show ?thesis
    using r1 r2
    by (intro exI [of _ "v\<lparr>sample := Some ?s\<rparr>"]
          exI [of _ "v\<lparr>strata := Some ?st, samples := Some [?s], final_sample := Some ?s\<rparr>"]
          exI [of _ ?s]) simp
qed

theorem single_stratum_equals_srswor_witness:
  "without_replacement (last_first 42) \<and> (1::int) \<le> 2 \<and>
   2 \<le> int (length (df (start (load_data [block ''A'', block ''A'', block ''A''])))) \<and>
   (\<exists>v1 v2 s. srswor last_first 2 (start (load_data [block ''A'', block ''A'', block ''A''])) = Inr v1 \<and>
      stratified last_first Region_choice 2 (start (load_data [block ''A'', block ''A'', block ''A''])) = Inr v2 \<and>
      sample v1 = Some s \<and> final_sample v2 = Some s \<and>
      strata v2 = Some [\<lparr>skey = ''A'',
         Nh = int (length (df (start (load_data [block ''A'', block ''A'', block ''A''])))), nh = 2\<rparr>])"
proof -
  let ?v = "start (load_data [block ''A'', block ''A'', block ''A''])"
  have a: "without_replacement (last_first 42)" by (rule last_first_without_replacement)
  have b: "(1::int) \<le> 2" by simp
  have c: "2 \<le> int (length (df ?v))" by (simp add: start_def load_data_def)
  have d: "\<forall>(l, r)\<in>set (df ?v). STRAT_VAR_MAP Region_choice r = Some ''A''"
    by (simp add: start_def load_data_def upt_rec Region_block_ABC(1))
  show ?thesis
    using a b c single_stratum_equals_srswor [of last_first, OF a b c d] by blast
qed

section \<open>Repeated runs\<close>

text \<open>
  Both branches pass \<open>random_state=42\<close> to every \<open>sample\<close> call, so each call starts from
  a freshly seeded generator: what is drawn depends on the generator seeded with 42, the
  number of rows and the number requested, and on nothing that an earlier call or an
  earlier run left behind.
\<close>

lemma pd_sample_seed:
  assumes "rs1 seed = rs2 seed"
  shows "pd_sample rs1 d k seed = pd_sample rs2 d k seed"
  by (simp add: pd_sample_def assms)

lemma draw_all_seed:
  assumes "rs1 42 = rs2 42"
  shows "draw_all rs1 col d ss = draw_all rs2 col d ss"
proof (induction ss)
  case Nil
  show ?case by simp
next
  case (Cons s ss)
  show ?case
    by (simp only: draw_all.simps Cons.IH pd_sample_seed [of rs1 42 rs2, OF assms])
qed

text \<open>
  Claim C8. Two runs on the same population table, with the same \<open>n\<close> and the same
  stratification field, whose generators agree when seeded with 42, end alike: both fail
  with the same error, or both return the same allocation table and the same sample, as
  lists, hence with the same rows in the same order. The runs may start from different values
  of every variable but \<open>df\<close>. The same holds for the simple random sampling branch.
\<close>

theorem same_inputs_same_outputs:
  assumes "df v1 = df v2" and "rs1 42 = rs2 42"
  shows "map_sum id (\<lambda>v. (strata v, final_sample v)) (stratified rs1 strat_display n v1) =
         map_sum id (\<lambda>v. (strata v, final_sample v)) (stratified rs2 strat_display n v2) \<and>
         map_sum id sample (srswor rs1 n v1) = map_sum id sample (srswor rs2 n v2)"
proof -
  have "map_sum id (\<lambda>v. (strata v, final_sample v)) (stratified rs1 strat_display n v1) =
        map_sum id (\<lambda>v. (strata v, final_sample v)) (stratified rs2 strat_display n v2)"
    by (simp add: stratified_def Let_def assms(1) draw_all_seed [of rs1 rs2, OF assms(2)] split: sum.splits)
  moreover have "map_sum id sample (srswor rs1 n v1) = map_sum id sample (srswor rs2 n v2)"
    by (simp add: srswor_def assms(1) pd_sample_seed [of rs1 42 rs2, OF assms(2)] split: sum.splits)
  ultimately show ?thesis by simp
qed

theorem same_inputs_same_outputs_witness:
  "df (start (load_data seven_blocks)) = df ((start (load_data seven_blocks))\<lparr>sample := Some []\<rparr>) \<and>
   last_first 42 = (\<lambda>seed. if seed = 42 then last_first 42 else (\<lambda>N k. [])) 42 \<and>
   map_sum id (\<lambda>v. (strata v, final_sample v))
     (stratified last_first Region_choice 3 (start (load_data seven_blocks))) =
   map_sum id (\<lambda>v. (strata v, final_sample v))
     (stratified (\<lambda>seed. if seed = 42 then last_first 42 else (\<lambda>N k. [])) Region_choice 3
        ((start (load_data seven_blocks))\<lparr>sample := Some []\<rparr>)) \<and>
   map_sum id sample (srswor last_first 3 (start (load_data seven_blocks))) =
   map_sum id sample
     (srswor (\<lambda>seed. if seed = 42 then last_first 42 else (\<lambda>N k. [])) 3
        ((start (load_data seven_blocks))\<lparr>sample := Some []\<rparr>))"
proof -
  have a: "df (start (load_data seven_blocks)) =
      df ((start (load_data seven_blocks))\<lparr>sample := Some []\<rparr>)"
    by simp
  have b: "last_first 42 = (\<lambda>seed. if seed = 42 then last_first 42 else (\<lambda>N k. [])) 42"
    by simp
  show ?thesis
    using a b
      same_inputs_same_outputs [of "start (load_data seven_blocks)"
        "(start (load_data seven_blocks))\<lparr>sample := Some []\<rparr>" last_first
        "\<lambda>seed. if seed = 42 then last_first 42 else (\<lambda>N k. [])" Region_choice 3, OF a b]
    by blast
qed

end
